theory Spec2Isabelle
  imports Main "HOL-Library.Word"
begin

section \<open>The firmware's data\<close>

text \<open>
  The sketch \<^verbatim>\<open>MikrokontrollerBluetoothNFCReader.ino\<close> keeps its state in global
  variables and in one namespace (\<^verbatim>\<open>"wifi"\<close>) of the non-volatile key-value store. The
  store, the radio, the reader and the web server are libraries outside the sketch; each is
  modelled by what the sketch asks of it. The store is a finite map from keys to strings:
  \<^verbatim>\<open>getString(key, default)\<close> yields the default for a missing key,
  \<^verbatim>\<open>putString\<close> binds the key and \<^verbatim>\<open>clear\<close> removes every key of the namespace.
\<close>

type_synonym preferences = "string \<rightharpoonup> string"

definition getString :: "preferences \<Rightarrow> string \<Rightarrow> string \<Rightarrow> string" where
  "getString p key dflt = (case p key of None \<Rightarrow> dflt | Some v \<Rightarrow> v)"

definition putString :: "preferences \<Rightarrow> string \<Rightarrow> string \<Rightarrow> preferences" where
  "putString p key v = p(key \<mapsto> v)"

definition clear :: "preferences \<Rightarrow> preferences" where
  "clear p = Map.empty"

text \<open>
  The globals of the sketch (lines 26-55) and the function-local static
  \<^verbatim>\<open>lastReconnectTime\<close> of \<^verbatim>\<open>loop\<close> (line 408, an \<^verbatim>\<open>unsigned long\<close> of 32 bits
  on this target). \<^verbatim>\<open>networkList\<close> is an array of \<^verbatim>\<open>MAX_NETWORKS\<close> strings.
\<close>

record device =
  prefs :: preferences
  savedSSID :: string
  savedPassword :: string
  serverURL :: string
  networkList :: "string list"
  networkCount :: int
  lastUID :: string
  lastReconnectTime :: "32 word"

definition MAX_NETWORKS :: int where
  "MAX_NETWORKS = 20"

text \<open>The state after reset: the initialisers of the globals, over a given store.\<close>

definition boot :: "preferences \<Rightarrow> device" where
  "boot p = \<lparr> prefs = p, savedSSID = [], savedPassword = [], serverURL = [],
     networkList = replicate (nat MAX_NETWORKS) [], networkCount = 0,
     lastUID = [], lastReconnectTime = 0 \<rparr>"

section \<open>Credential store\<close>

text \<open>\<^verbatim>\<open>loadCredentials\<close> (lines 160-165) and \<^verbatim>\<open>saveCredentials\<close> (lines 167-172).\<close>

definition loadCredentials :: "device \<Rightarrow> device" where
  "loadCredentials st =
     st\<lparr> savedSSID := getString (prefs st) ''ssid'' [],
         savedPassword := getString (prefs st) ''password'' [] \<rparr>"

definition saveCredentials :: "device \<Rightarrow> string \<Rightarrow> string \<Rightarrow> device" where
  "saveCredentials st ssid pass =
     st\<lparr> prefs := putString (putString (prefs st) ''ssid'' ssid) ''password'' pass \<rparr>"

section \<open>Effects\<close>

text \<open>
  Calls to the outside are recorded in order: the radio, the store, the timer, the web
  server's replies, the HTTP client, the reader and the actuators. Of the console output
  only the two lines that report a tag are kept (without their leading pictograph); the
  other console lines are left out. \<^verbatim>\<open>ESP.restart()\<close> does not return, so a function that reaches it ends
  with the outcome \<open>Restarted\<close> and nothing after it runs.
\<close>

datatype effect =
    Println string
  | Delay nat
  | Restart
  | WiFiModeSTA
  | WiFiBegin string string
  | WiFiDisconnect
  | LedWifiHigh
  | PrefsPut string string
  | PrefsClear
  | Send nat string
  | HttpGet string
  | PiccIsNewCardPresent
  | PiccHalt
  | Blink nat
  | Beep nat
  | Vibrate nat
  | DnsProcess

datatype outcome = Returned | Restarted

section \<open>Reading a tag\<close>

type_synonym byte = "8 word"

text \<open>
  \<^verbatim>\<open>String(value, HEX)\<close> of the Arduino core converts with \<^verbatim>\<open>utoa\<close>: lower-case
  digits, no leading zero. \<^verbatim>\<open>toUpperCase\<close> maps the ASCII letters a-z to A-Z.
\<close>

definition hexDigit :: "nat \<Rightarrow> char" where
  "hexDigit d = (if d < 10 then char_of (48 + d) else char_of (87 + d))"

definition String_HEX :: "byte \<Rightarrow> string" where
  "String_HEX b =
     (if unat b < 16 then [hexDigit (unat b)]
      else [hexDigit (unat b div 16), hexDigit (unat b mod 16)])"

definition toUpper :: "char \<Rightarrow> char" where
  "toUpper c = (if 97 \<le> (of_char c :: nat) \<and> (of_char c :: nat) \<le> 122
                then char_of ((of_char c :: nat) - 32) else c)"

definition toLower :: "char \<Rightarrow> char" where
  "toLower c = (if 65 \<le> (of_char c :: nat) \<and> (of_char c :: nat) \<le> 90
                then char_of ((of_char c :: nat) + 32) else c)"

definition toUpperCase :: "string \<Rightarrow> string" where
  "toUpperCase s = map toUpper s"

text \<open>The loop of lines 313-315 over the bytes of the UID, appending to \<^verbatim>\<open>uidStr\<close>.\<close>

primrec uidLoop :: "byte list \<Rightarrow> string \<Rightarrow> string" where
  "uidLoop [] uidStr = uidStr"
| "uidLoop (b # bs) uidStr = uidLoop bs (uidStr @ String_HEX b)"

text \<open>
  \<^verbatim>\<open>readRFID\<close> (lines 308-326). The reader's answer is the input: \<open>None\<close> when no new
  card is present or its serial cannot be read, otherwise the bytes of the UID.
\<close>

definition readRFID :: "byte list option \<Rightarrow> string \<times> effect list" where
  "readRFID picc =
     (case picc of
        None \<Rightarrow> ([], [PiccIsNewCardPresent])
      | Some uid \<Rightarrow>
          (let uidStr = toUpperCase (uidLoop uid [])
           in (uidStr, [PiccIsNewCardPresent, PiccHalt, Println (''RFID Detected! UID: '' @ uidStr),
                        Blink 200, Beep 200, Vibrate 300])))"

section \<open>Console command\<close>

definition isSpace :: "char \<Rightarrow> bool" where
  "isSpace c = ((of_char c :: nat) = 32 \<or> (9 \<le> (of_char c :: nat) \<and> (of_char c :: nat) \<le> 13))"

definition trim :: "string \<Rightarrow> string" where
  "trim s = rev (dropWhile isSpace (rev (dropWhile isSpace s)))"

definition equalsIgnoreCase :: "string \<Rightarrow> string \<Rightarrow> bool" where
  "equalsIgnoreCase a b = (map toLower a = map toLower b)"

text \<open>
  \<^verbatim>\<open>checkSerialCommand\<close> (lines 360-374). The input is the line waiting on the console,
  if any.
\<close>

definition checkSerialCommand :: "device \<Rightarrow> string option \<Rightarrow> outcome \<times> device \<times> effect list" where
  "checkSerialCommand st input =
     (case input of
        None \<Rightarrow> (Returned, st, [])
      | Some command \<Rightarrow>
          if equalsIgnoreCase (trim command) ''clear''
          then (Restarted, st\<lparr>prefs := clear (prefs st)\<rparr>, [PrefsClear, Delay 500, Restart])
          else (Returned, st, []))"

section \<open>Notification and the main loop\<close>

text \<open>
  \<^verbatim>\<open>sendRFIDData\<close> (lines 331-355): one HTTP GET when the link is up, none otherwise.
  The link state and the device's address are inputs.
\<close>

definition sendRFIDData :: "device \<Rightarrow> bool \<Rightarrow> string \<Rightarrow> string \<Rightarrow> effect list" where
  "sendRFIDData st linkUp localIP uid =
     (if \<not> linkUp then [] else [HttpGet (serverURL st @ localIP @ ''/'' @ uid)])"

text \<open>
  The comparison of lines 422-424: a read is passed on when it is not empty and differs
  from the remembered identifier, which it then replaces.
\<close>

definition dedupGate :: "string \<Rightarrow> string \<Rightarrow> string \<times> string option" where
  "dedupGate lastSeen uid =
     (if uid = [] \<or> uid = lastSeen then (lastSeen, None) else (uid, Some uid))"

text \<open>
  What one pass of \<^verbatim>\<open>loop\<close> observes: the console line waiting at its start and at its
  end, whether the radio is in access-point mode, whether the link is up, the time in
  milliseconds since boot (\<^verbatim>\<open>millis()\<close> is this time modulo \<open>2^32\<close>), and the reader's
  answer.
\<close>

record tick =
  serial :: "string option"
  serialAfter :: "string option"
  apMode :: bool
  linkUp :: bool
  now :: nat
  picc :: "byte list option"

text \<open>\<^verbatim>\<open>loop\<close> (lines 397-432). The call of \<^verbatim>\<open>sendRFIDData\<close> is commented out in the source (line 428).\<close>

definition loop :: "device \<Rightarrow> tick \<Rightarrow> outcome \<times> device \<times> effect list" where
  "loop st t =
     (case checkSerialCommand st (serial t) of
        (Restarted, st1, e1) \<Rightarrow> (Restarted, st1, e1)
      | (Returned, st1, e1) \<Rightarrow>
          if apMode t then (Returned, st1, e1 @ [DnsProcess])
          else if \<not> linkUp t then
            (let millis = (of_nat (now t) :: 32 word)
             in if millis - lastReconnectTime st1 \<ge> 60000
                then (Returned, st1\<lparr>lastReconnectTime := millis\<rparr>,
                      e1 @ [WiFiDisconnect, WiFiBegin (savedSSID st1) (savedPassword st1)])
                else (Returned, st1, e1))
          else
            (case readRFID (picc t) of
               (uid, e2) \<Rightarrow>
                 (case dedupGate (lastUID st1) uid of
                    (l, None) \<Rightarrow> (Returned, st1, e1 @ e2)
                  | (l, Some u) \<Rightarrow>
                      (case checkSerialCommand (st1\<lparr>lastUID := l\<rparr>) (serialAfter t) of
                         (out, st2, e3) \<Rightarrow>
                           (out, st2, e1 @ e2 @ [Println (''New Card Detected! UID: '' @ u)] @ e3)))))"

text \<open>Running the loop over successive ticks, until a restart ends the process.\<close>

fun run :: "device \<Rightarrow> tick list \<Rightarrow> (outcome \<times> device \<times> effect list) list" where
  "run st [] = []"
| "run st (t # ts) =
     (case loop st t of
        (Restarted, st', e) \<Rightarrow> [(Restarted, st', e)]
      | (Returned, st', e) \<Rightarrow> (Returned, st', e) # run st' ts)"

section \<open>Joining the network\<close>

text \<open>
  The wait of \<^verbatim>\<open>connectToWiFi\<close> (lines 250-255). \<open>status k\<close> tells whether the
  \<open>k\<close>-th call of \<^verbatim>\<open>WiFi.status()\<close> within the function (counted from 0) answers
  \<^verbatim>\<open>WL_CONNECTED\<close>; every pass of the loop makes one call, so the call in the loop's
  condition has the index \<^verbatim>\<open>attempts\<close>.
\<close>

function connectWait :: "(nat \<Rightarrow> bool) \<Rightarrow> nat \<Rightarrow> effect list \<Rightarrow> nat \<times> effect list" where
  "connectWait status attempts e =
     (if \<not> status attempts \<and> attempts < 10
      then connectWait status (attempts + 1) (e @ [Delay 1000])
      else (attempts, e))"
  by pat_completeness auto
termination
  by (relation "measure (\<lambda>(status, attempts, e). 10 - attempts)") auto

declare connectWait.simps [simp del]

text \<open>
  \<^verbatim>\<open>connectToWiFi\<close> (lines 244-273). \<open>Returned\<close> stands for the return of
  \<^verbatim>\<open>true\<close>; the other branch restarts and never returns. The status is read once
  more after the loop (line 256).
\<close>

definition connectToWiFi :: "device \<Rightarrow> (nat \<Rightarrow> bool) \<Rightarrow> outcome \<times> device \<times> effect list" where
  "connectToWiFi st status =
     (case connectWait status 0 [WiFiModeSTA, WiFiBegin (savedSSID st) (savedPassword st)] of
        (attempts, e) \<Rightarrow>
          if status (attempts + 1)
          then (Returned, st, e @ [LedWifiHigh])
          else (Restarted, st\<lparr>prefs := clear (prefs st)\<rparr>, e @ [PrefsClear, Delay 500, Restart]))"

section \<open>Provisioning\<close>

text \<open>
  A parameter of a request, and the lookup of \<^verbatim>\<open>hasParam(name, post)\<close> and
  \<^verbatim>\<open>getParam(name, post)\<close> of the web server library (the first parameter of that
  name and kind that is not a file).
\<close>

record param =
  pname :: string
  pvalue :: string
  isPost :: bool
  isFile :: bool

fun getParam :: "param list \<Rightarrow> string \<Rightarrow> bool \<Rightarrow> param option" where
  "getParam [] name post = None"
| "getParam (p # ps) name post =
     (if pname p = name \<and> isPost p = post \<and> \<not> isFile p then Some p else getParam ps name post)"

definition hasParam :: "param list \<Rightarrow> string \<Rightarrow> bool \<Rightarrow> bool" where
  "hasParam req name post = (getParam req name post \<noteq> None)"

text \<open>\<^verbatim>\<open>handleSave\<close> (lines 194-212), the handler of \<^verbatim>\<open>POST /save\<close>.\<close>

definition handleSave :: "device \<Rightarrow> param list \<Rightarrow> outcome \<times> device \<times> effect list" where
  "handleSave st request =
     (if hasParam request ''ssid'' True \<and> hasParam request ''password'' True
      then
        (case (getParam request ''ssid'' True, getParam request ''password'' True) of
           (Some s, Some p) \<Rightarrow>
             (let newSSID = pvalue s;
                  newPassword = pvalue p;
                  st1 = saveCredentials st newSSID newPassword;
                  st2 = st1\<lparr>savedSSID := newSSID, savedPassword := newPassword\<rparr>
              in (Restarted, st2,
                  [PrefsPut ''ssid'' newSSID, PrefsPut ''password'' newPassword,
                   Send 200 ''<h3>Credentials Saved. Restarting...</h3>'', Delay 500, Restart]))
         | _ \<Rightarrow> (Returned, st, [Send 400 ''<h3>Invalid Data!</h3>'']))
      else (Returned, st, [Send 400 ''<h3>Invalid Data!</h3>'']))"

text \<open>
  \<^verbatim>\<open>scanWiFiNetworks\<close> (lines 140-155). The radio's answer is the input: the number
  \<open>n\<close> that \<^verbatim>\<open>WiFi.scanNetworks()\<close> returns (negative on failure) and the name
  \<open>ssid i\<close> that \<^verbatim>\<open>WiFi.SSID(i)\<close> returns. A write to \<^verbatim>\<open>networkList[i]\<close> outside
  the array has no defined result in the source; the model returns \<open>None\<close> there.
\<close>

function scanCopy :: "(nat \<Rightarrow> string) \<Rightarrow> int \<Rightarrow> device \<Rightarrow> device option" where
  "scanCopy ssid i st =
     (if i < networkCount st
      then (if 0 \<le> i \<and> i < int (length (networkList st))
            then scanCopy ssid (i + 1)
                   (st\<lparr>networkList := (networkList st)[nat i := ssid (nat i)]\<rparr>)
            else None)
      else Some st)"
  by pat_completeness auto
termination
  by (relation "measure (\<lambda>(ssid, i, st). nat (networkCount st - i))") auto

declare scanCopy.simps [simp del]

definition scanWiFiNetworks :: "device \<Rightarrow> int \<Rightarrow> (nat \<Rightarrow> string) \<Rightarrow> device option" where
  "scanWiFiNetworks st n ssid =
     (let st1 = st\<lparr>networkCount := n\<rparr>
      in if networkCount st1 = - 1 then Some st1
         else scanCopy ssid 0
                (if networkCount st1 > MAX_NETWORKS then st1\<lparr>networkCount := MAX_NETWORKS\<rparr>
                 else st1))"

text \<open>
  The landing page (lines 69-86), a raw string literal: it starts and ends with a line
  break and holds the placeholder \<^verbatim>\<open>%OPTIONS%\<close> once.
\<close>

definition index_html :: string where
  \<open>index_html =
     ''\<newline>'' @
     ''<!DOCTYPE HTML><html><head>\<newline>'' @
     ''  <title>ESP32 WiFi Provisioning</title>\<newline>'' @
     ''  <meta name="viewport" content="width=device-width, initial-scale=1">\<newline>'' @
     ''  <style>\<newline>'' @
     ''    body { font-family: Arial; text-align: center; margin-top: 50px; }\<newline>'' @
     ''    select, input { font-size: 16px; padding: 8px; }\<newline>'' @
     ''  </style>\<newline>'' @
     ''  </head><body>\<newline>'' @
     ''  <h2>Select Wi-Fi Network and Enter Password</h2>\<newline>'' @
     ''  <form method="POST" action="/save">\<newline>'' @
     ''    <label for="ssid">Choose Network:</label><br>\<newline>'' @
     ''    <select name="ssid" id="ssid">%OPTIONS%</select><br><br>\<newline>'' @
     ''    Password: <input type="password" name="password"><br><br>\<newline>'' @
     ''    <input type="submit" value="Save">\<newline>'' @
     ''  </form>\<newline>'' @
     ''</body></html>\<newline>''\<close>

text \<open>
  \<^verbatim>\<open>String::replace(find, replace)\<close> of the Arduino core, as a search from the left
  that does not look into the text it has put in; nothing is done when the string or
  \<^verbatim>\<open>find\<close> is empty.
\<close>

function replace :: "string \<Rightarrow> string \<Rightarrow> string \<Rightarrow> string" where
  "replace [] pat rep = []"
| "replace (c # cs) pat rep =
     (if pat = [] then c # cs
      else if take (length pat) (c # cs) = pat
           then rep @ replace (drop (length pat) (c # cs)) pat rep
           else c # replace cs pat rep)"
  by pat_completeness auto
termination
  by (relation "measure (\<lambda>(s, pat, rep). length s)") auto

text \<open>
  The loop of \<^verbatim>\<open>buildLandingPage\<close> (lines 179-181) and the function itself
  (lines 177-185). A read of \<^verbatim>\<open>networkList[i]\<close> outside the array has no defined
  result in the source; the model returns \<open>None\<close> there.
\<close>

function optionsLoop :: "device \<Rightarrow> int \<Rightarrow> string \<Rightarrow> string option" where
  "optionsLoop st i options =
     (if i < networkCount st
      then (if 0 \<le> i \<and> i < int (length (networkList st))
            then optionsLoop st (i + 1)
                   (options @ ''<option value='' @ [CHR 0x27] @ networkList st ! nat i @
                    [CHR 0x27] @ ''>'' @ networkList st ! nat i @ ''</option>'')
            else None)
      else Some options)"
  by pat_completeness auto
termination
  by (relation "measure (\<lambda>(st, i, options). nat (networkCount st - i))") auto

declare optionsLoop.simps [simp del]

definition buildLandingPage :: "device \<Rightarrow> string option" where
  "buildLandingPage st =
     (case optionsLoop st 0 [] of
        None \<Rightarrow> None
      | Some options \<Rightarrow> Some (replace index_html ''%OPTIONS%'' options))"

text \<open>\<^verbatim>\<open>handleRoot\<close> (lines 190-192): the page with status 200.\<close>

definition handleRoot :: "device \<Rightarrow> effect list option" where
  "handleRoot st = (case buildLandingPage st of None \<Rightarrow> None | Some page \<Rightarrow> Some [Send 200 page])"

section \<open>Properties: credential store\<close>

text \<open>
  Claim C7. Saving a pair and loading it again yields the same pair, for every two strings;
  loading from a cleared store yields two empty strings; and loading is total, with the
  empty string for each key that is missing.
\<close>

theorem credentials_roundtrip:
  "savedSSID (loadCredentials (saveCredentials st x y)) = x
   \<and> savedPassword (loadCredentials (saveCredentials st x y)) = y
   \<and> savedSSID (loadCredentials (st\<lparr>prefs := clear (prefs st)\<rparr>)) = []
   \<and> savedPassword (loadCredentials (st\<lparr>prefs := clear (prefs st)\<rparr>)) = []
   \<and> (prefs st ''ssid'' = None \<longrightarrow> savedSSID (loadCredentials st) = [])
   \<and> (prefs st ''password'' = None \<longrightarrow> savedPassword (loadCredentials st) = [])"
  by (simp add: loadCredentials_def saveCredentials_def getString_def putString_def clear_def)

theorem credentials_roundtrip_witness:
  "savedSSID (loadCredentials (saveCredentials (boot Map.empty) ''X'' ''Y'')) = ''X''
   \<and> savedPassword (loadCredentials (saveCredentials (boot Map.empty) ''X'' ''Y'')) = ''Y''
   \<and> prefs (boot Map.empty) ''ssid'' = None
   \<and> savedSSID (loadCredentials (boot Map.empty)) = []
   \<and> savedPassword (loadCredentials (boot Map.empty)) = []"
  using credentials_roundtrip [of "boot Map.empty" "''X''" "''Y''"]
  by (simp add: boot_def)

section \<open>Properties: the reader's identifier\<close>

text \<open>
  Claim C10. The identifier of a tag should be the upper-case hexadecimal text of the UID
  bytes, two digits per byte, so that distinct UIDs give distinct texts whose length the
  byte count fixes. \<^verbatim>\<open>readRFID\<close> converts each byte without a leading zero: the
  four-byte UIDs \<open>01 23 45 67\<close> and \<open>12 03 45 67\<close> both give \<open>1234567\<close>, and
  \<open>04 A3 FF 10\<close> gives seven characters instead of eight.
\<close>

theorem readRFID_drops_leading_zero:
  "fst (readRFID (Some [0x01, 0x23, 0x45, 0x67])) = ''1234567''
   \<and> fst (readRFID (Some [0x12, 0x03, 0x45, 0x67])) = ''1234567''
   \<and> fst (readRFID (Some [0x04, 0xA3, 0xFF, 0x10])) = ''4A3FF10''"
  by code_simp

section \<open>Properties: the dedup gate\<close>

text \<open>
  The gate run over a sequence of reads (the empty string is the absent read), giving the
  event of each position; the last event among some events; and the events alone.
\<close>

fun dedupRun :: "string \<Rightarrow> string list \<Rightarrow> string option list" where
  "dedupRun l [] = []"
| "dedupRun l (r # rs) = (case dedupGate l r of (l', ev) \<Rightarrow> ev # dedupRun l' rs)"

fun lastEmitted :: "string option list \<Rightarrow> string option" where
  "lastEmitted [] = None"
| "lastEmitted (e # es) = (case lastEmitted es of None \<Rightarrow> e | Some x \<Rightarrow> Some x)"

primrec emitted :: "string option list \<Rightarrow> string list" where
  "emitted [] = []"
| "emitted (e # es) = (case e of None \<Rightarrow> emitted es | Some x \<Rightarrow> x # emitted es)"

lemma dedupGate_cases:
  "dedupGate l u = (l, None) \<or> (dedupGate l u = (u, Some u) \<and> u \<noteq> [] \<and> u \<noteq> l)"
  by (simp add: dedupGate_def)

lemma dedupRun_nth:
  "i < length reads \<Longrightarrow>
     (dedupRun l reads ! i \<noteq> None) =
       (reads ! i \<noteq> [] \<and>
        reads ! i \<noteq> (case lastEmitted (take i (dedupRun l reads)) of None \<Rightarrow> l | Some x \<Rightarrow> x))"
proof (induction reads arbitrary: l i)
  case Nil
  then show ?case by simp
next
  case (Cons r rs)
  show ?case
  proof (cases i)
    case 0
    then show ?thesis by (simp add: dedupGate_def)
  next
    case (Suc j)
    with Cons.prems have j: "j < length rs" by simp
    show ?thesis
      using Cons.IH [OF j, of "fst (dedupGate l r)"] Suc
      by (auto simp: dedupGate_def split: option.splits)
  qed
qed

lemma dedupRun_value:
  "i < length reads \<Longrightarrow> dedupRun l reads ! i = None \<or> dedupRun l reads ! i = Some (reads ! i)"
proof (induction reads arbitrary: l i)
  case Nil
  then show ?case by simp
next
  case (Cons r rs)
  then show ?case
    by (cases i) (auto simp: dedupGate_def)
qed

text \<open>
  Claim C1. Started with an empty remembered identifier, the gate emits at a position
  exactly when the read there is not empty and differs from the last identifier emitted
  before; an absent read leaves the memory alone, so the reads \<open>a, a, -, a, b, a\<close> emit
  \<open>a, b, a\<close>.
\<close>

theorem dedup_gate_emits_iff:
  "(i < length reads \<longrightarrow>
      (dedupRun [] reads ! i = Some (reads ! i)) =
        (reads ! i \<noteq> [] \<and> lastEmitted (take i (dedupRun [] reads)) \<noteq> Some (reads ! i)))
   \<and> (i < length reads \<longrightarrow>
        dedupRun [] reads ! i = None \<or> dedupRun [] reads ! i = Some (reads ! i))
   \<and> (a \<noteq> [] \<and> b \<noteq> [] \<and> a \<noteq> b \<longrightarrow>
        dedupRun [] [a, a, [], a, b, a] = [Some a, None, None, None, Some b, Some a]
        \<and> emitted (dedupRun [] [a, a, [], a, b, a]) = [a, b, a])"
proof (intro conjI impI)
  assume i: "i < length reads"
  have A: "(dedupRun [] reads ! i \<noteq> None) = (dedupRun [] reads ! i = Some (reads ! i))"
    using dedupRun_value [OF i, of "[]"] by auto
  show "(dedupRun [] reads ! i = Some (reads ! i)) =
        (reads ! i \<noteq> [] \<and> lastEmitted (take i (dedupRun [] reads)) \<noteq> Some (reads ! i))"
    unfolding A [symmetric] dedupRun_nth [OF i]
    by (auto split: option.splits)
  show "dedupRun [] reads ! i = None \<or> dedupRun [] reads ! i = Some (reads ! i)"
    by (rule dedupRun_value [OF i])
qed (auto simp add: dedupGate_def)

theorem dedup_gate_emits_iff_witness:
  "(4 :: nat) < length [''A1'', ''A1'', [], ''A1'', ''B2'', ''A1'']
   \<and> dedupRun [] [''A1'', ''A1'', [], ''A1'', ''B2'', ''A1''] ! 4 = Some ''B2''
   \<and> lastEmitted (take 4 (dedupRun [] [''A1'', ''A1'', [], ''A1'', ''B2'', ''A1''])) = Some ''A1''
   \<and> ''A1'' \<noteq> [] \<and> ''B2'' \<noteq> [] \<and> ''A1'' \<noteq> ''B2''
   \<and> emitted (dedupRun [] [''A1'', ''A1'', [], ''A1'', ''B2'', ''A1'']) = [''A1'', ''B2'', ''A1'']"
  using dedup_gate_emits_iff [of 4 "[''A1'', ''A1'', [], ''A1'', ''B2'', ''A1'']" "''A1''" "''B2''"]
  by (simp add: dedupGate_def)


section \<open>Properties: the main loop\<close>

text \<open>
  A tick issues a reconnect attempt when it disconnects the radio; a notification is a
  request of the HTTP client.
\<close>

definition reconnects :: "outcome \<times> device \<times> effect list \<Rightarrow> bool" where
  "reconnects r = (WiFiDisconnect \<in> set (snd (snd r)))"

fun isNotify :: "effect \<Rightarrow> bool" where
  "isNotify (HttpGet url) = True"
| "isNotify _ = False"

definition newCardLine :: "string \<Rightarrow> effect" where
  "newCardLine u = Println (''New Card Detected! UID: '' @ u)"

text \<open>Two ticks on which the reader answers with the UID \<open>A4 A3 FF 10\<close> and the link is up.\<close>

definition tagTick :: tick where
  "tagTick = \<lparr> serial = None, serialAfter = None, apMode = False, linkUp = True,
               now = 70000, picc = Some [0xA4, 0xA3, 0xFF, 0x10] \<rparr>"

text \<open>A tick at the given time with the link down and nothing else going on.\<close>

definition downTick :: "nat \<Rightarrow> tick" where
  "downTick ms = \<lparr> serial = None, serialAfter = None, apMode = False, linkUp = False,
                   now = ms, picc = None \<rparr>"

text \<open>Were it called, \<^verbatim>\<open>sendRFIDData\<close> would make one such request while the link is up.\<close>

lemma sendRFIDData_notifies:
  "filter isNotify (sendRFIDData st True localIP uid) = [HttpGet (serverURL st @ localIP @ ''/'' @ uid)]"
  "filter isNotify (sendRFIDData st False localIP uid) = []"
  by (simp_all add: sendRFIDData_def)

lemma checkSerial_cases:
  "checkSerialCommand st inp = (Returned, st, []) \<or>
   checkSerialCommand st inp =
     (Restarted, st\<lparr>prefs := clear (prefs st)\<rparr>, [PrefsClear, Delay 500, Restart])"
  by (simp add: checkSerialCommand_def split: option.splits)

lemma checkSerial_Returned:
  "fst (checkSerialCommand st inp) = Returned \<Longrightarrow> checkSerialCommand st inp = (Returned, st, [])"
  using checkSerial_cases [of st inp] by auto

lemma readRFID_cases:
  "readRFID p = ([], [PiccIsNewCardPresent]) \<or>
   (\<exists>u. readRFID p =
      (u, [PiccIsNewCardPresent, PiccHalt, Println (''RFID Detected! UID: '' @ u),
           Blink 200, Beep 200, Vibrate 300]))"
  by (simp add: readRFID_def Let_def split: option.splits)

lemma readRFID_quiet:
  "WiFiDisconnect \<notin> set (snd (readRFID p))"
  "filter isNotify (snd (readRFID p)) = []"
  "count_list (snd (readRFID p)) (newCardLine u) = 0"
  using readRFID_cases [of p] by (auto simp: newCardLine_def)

lemma newCardLine_distinct:
  "newCardLine u \<noteq> PrefsClear" "newCardLine u \<noteq> Delay n" "newCardLine u \<noteq> Restart"
  "PrefsClear \<noteq> newCardLine u" "Delay n \<noteq> newCardLine u" "Restart \<noteq> newCardLine u"
  by (simp_all add: newCardLine_def)

lemma loop_restart:
  "checkSerialCommand st (serial t) = (Restarted, st1, e1) \<Longrightarrow> loop st t = (Restarted, st1, e1)"
  by (simp add: loop_def)

lemma loop_ap:
  "checkSerialCommand st (serial t) = (Returned, st1, e1) \<Longrightarrow> apMode t \<Longrightarrow>
     loop st t = (Returned, st1, e1 @ [DnsProcess])"
  by (simp add: loop_def)

lemma loop_down:
  "checkSerialCommand st (serial t) = (Returned, st1, e1) \<Longrightarrow> \<not> apMode t \<Longrightarrow> \<not> linkUp t \<Longrightarrow>
     loop st t =
       (if (60000 :: 32 word) \<le> of_nat (now t) - lastReconnectTime st1
        then (Returned, st1\<lparr>lastReconnectTime := of_nat (now t)\<rparr>,
              e1 @ [WiFiDisconnect, WiFiBegin (savedSSID st1) (savedPassword st1)])
        else (Returned, st1, e1))"
  by (simp add: loop_def Let_def)

lemma loop_up:
  "checkSerialCommand st (serial t) = (Returned, st1, e1) \<Longrightarrow> \<not> apMode t \<Longrightarrow> linkUp t \<Longrightarrow>
     loop st t =
       (case dedupGate (lastUID st1) (fst (readRFID (picc t))) of
          (l, None) \<Rightarrow> (Returned, st1, e1 @ snd (readRFID (picc t)))
        | (l, Some u) \<Rightarrow>
            (case checkSerialCommand (st1\<lparr>lastUID := l\<rparr>) (serialAfter t) of
               (out, st2, e3) \<Rightarrow>
                 (out, st2, e1 @ snd (readRFID (picc t)) @ [newCardLine u] @ e3)))"
  by (simp add: loop_def newCardLine_def split: prod.splits option.splits)

lemma loop_up_new:
  assumes "checkSerialCommand st (serial t) = (Returned, st, [])" "\<not> apMode t" "linkUp t"
    and "dedupGate (lastUID st) (fst (readRFID (picc t))) = (u, Some u)"
  shows "loop st t = (Returned, st\<lparr>lastUID := u\<rparr>, snd (readRFID (picc t)) @ [newCardLine u])
       \<or> loop st t = (Restarted, st\<lparr>lastUID := u, prefs := clear (prefs st)\<rparr>,
            snd (readRFID (picc t)) @ [newCardLine u] @ [PrefsClear, Delay 500, Restart])"
  using checkSerial_cases [of "st\<lparr>lastUID := u\<rparr>" "serialAfter t"]
  by (auto simp: loop_up [OF assms(1-3)] assms(4))

lemma loop_up_same:
  assumes "checkSerialCommand st (serial t) = (Returned, st, [])" "\<not> apMode t" "linkUp t"
    and "dedupGate (lastUID st) (fst (readRFID (picc t))) = (l, None)"
  shows "loop st t = (Returned, st, snd (readRFID (picc t)))"
  by (simp add: loop_up [OF assms(1-3)] assms(4))

lemma loop_up_quiet:
  assumes "checkSerialCommand st (serial t) = (Returned, st, [])" "\<not> apMode t" "linkUp t"
  shows "\<not> reconnects (loop st t)
         \<and> lastReconnectTime (fst (snd (loop st t))) = lastReconnectTime st
         \<and> filter isNotify (snd (snd (loop st t))) = []"
proof -
  from dedupGate_cases [of "lastUID st" "fst (readRFID (picc t))"] show ?thesis
  proof
    assume "dedupGate (lastUID st) (fst (readRFID (picc t))) = (lastUID st, None)"
    from loop_up_same [OF assms this] show ?thesis
      by (simp add: reconnects_def readRFID_quiet)
  next
    assume "dedupGate (lastUID st) (fst (readRFID (picc t))) =
        (fst (readRFID (picc t)), Some (fst (readRFID (picc t))))
      \<and> fst (readRFID (picc t)) \<noteq> [] \<and> fst (readRFID (picc t)) \<noteq> lastUID st"
    then have "dedupGate (lastUID st) (fst (readRFID (picc t))) =
        (fst (readRFID (picc t)), Some (fst (readRFID (picc t))))" by simp
    from loop_up_new [OF assms this] show ?thesis
      by (auto simp: reconnects_def readRFID_quiet newCardLine_def)
  qed
qed

text \<open>On a tick with the link up, the remembered identifier moves as the gate says.\<close>

lemma loop_up_lastUID:
  assumes "checkSerialCommand st (serial t) = (Returned, st, [])" "\<not> apMode t" "linkUp t"
  shows "lastUID (fst (snd (loop st t))) = fst (dedupGate (lastUID st) (fst (readRFID (picc t))))"
proof -
  from dedupGate_cases [of "lastUID st" "fst (readRFID (picc t))"] show ?thesis
  proof
    assume g: "dedupGate (lastUID st) (fst (readRFID (picc t))) = (lastUID st, None)"
    from loop_up_same [OF assms this] show ?thesis by (simp add: g)
  next
    assume "dedupGate (lastUID st) (fst (readRFID (picc t))) =
        (fst (readRFID (picc t)), Some (fst (readRFID (picc t))))
      \<and> fst (readRFID (picc t)) \<noteq> [] \<and> fst (readRFID (picc t)) \<noteq> lastUID st"
    then have g: "dedupGate (lastUID st) (fst (readRFID (picc t))) =
        (fst (readRFID (picc t)), Some (fst (readRFID (picc t))))" by simp
    from loop_up_new [OF assms this] show ?thesis by (auto simp: g)
  qed
qed

text \<open>The four ways a tick can go, for the facts that hold on each.\<close>

lemma loop_cases [case_names restart ap down up]:
  assumes "checkSerialCommand st (serial t) =
        (Restarted, st\<lparr>prefs := clear (prefs st)\<rparr>, [PrefsClear, Delay 500, Restart]) \<Longrightarrow> P"
    and "checkSerialCommand st (serial t) = (Returned, st, []) \<Longrightarrow> apMode t \<Longrightarrow> P"
    and "checkSerialCommand st (serial t) = (Returned, st, []) \<Longrightarrow> \<not> apMode t \<Longrightarrow> \<not> linkUp t \<Longrightarrow> P"
    and "checkSerialCommand st (serial t) = (Returned, st, []) \<Longrightarrow> \<not> apMode t \<Longrightarrow> linkUp t \<Longrightarrow> P"
  shows P
  using assms checkSerial_cases [of st "serial t"] by blast

lemma loop_reconnects:
  assumes "reconnects (loop st t)"
  shows "(60000 :: 32 word) \<le> of_nat (now t) - lastReconnectTime st
     \<and> lastReconnectTime (fst (snd (loop st t))) = of_nat (now t)"
proof (cases rule: loop_cases [of st t])
  case restart
  from loop_restart [OF this] assms show ?thesis by (simp add: reconnects_def)
next
  case ap
  from loop_ap [OF this] assms show ?thesis by (simp add: reconnects_def)
next
  case down
  from loop_down [OF this] assms show ?thesis by (simp add: reconnects_def split: if_splits)
next
  case up
  from loop_up_quiet [OF this] assms show ?thesis by simp
qed

lemma loop_lastReconnectTime:
  "lastReconnectTime (fst (snd (loop st t))) = lastReconnectTime st \<or> reconnects (loop st t)"
proof (cases rule: loop_cases [of st t])
  case restart
  from loop_restart [OF this] show ?thesis by simp
next
  case ap
  from loop_ap [OF this] show ?thesis by simp
next
  case down
  from loop_down [OF this] show ?thesis by (simp add: reconnects_def)
next
  case up
  from loop_up_quiet [OF this] show ?thesis by simp
qed

lemma loop_no_notify: "filter isNotify (snd (snd (loop st t))) = []"
proof (cases rule: loop_cases [of st t])
  case restart
  from loop_restart [OF this] show ?thesis by simp
next
  case ap
  from loop_ap [OF this] show ?thesis by simp
next
  case down
  from loop_down [OF this] show ?thesis by simp
next
  case up
  from loop_up_quiet [OF this] show ?thesis by simp
qed

lemma readRFID_A4A3FF10: "fst (readRFID (Some [0xA4, 0xA3, 0xFF, 0x10])) = ''A4A3FF10''"
  by code_simp

lemma tagTick_read: "fst (readRFID (picc tagTick)) = ''A4A3FF10''"
  using readRFID_A4A3FF10 by (simp add: tagTick_def)

text \<open>
  Claim C2, as the code has it. The call of the notification is commented out in
  \<^verbatim>\<open>loop\<close>, so no tick makes a notification call. While the link is up, a new-tag
  event of the gate is remembered and reported on the console, once; the same tag read
  again on the next tick is not reported, and no call is made then either.
\<close>

theorem new_tag_logged_not_notified:
  "filter isNotify (snd (snd (loop st t))) = []
   \<and> (fst (checkSerialCommand st (serial t)) = Returned \<and> \<not> apMode t \<and> linkUp t
        \<and> dedupGate (lastUID st) (fst (readRFID (picc t))) = (u, Some u) \<longrightarrow>
          lastUID (fst (snd (loop st t))) = u
          \<and> count_list (snd (snd (loop st t))) (newCardLine u) = 1
          \<and> (fst (checkSerialCommand (fst (snd (loop st t))) (serial t')) = Returned
               \<and> \<not> apMode t' \<and> linkUp t' \<and> fst (readRFID (picc t')) = u \<longrightarrow>
                 count_list (snd (snd (loop (fst (snd (loop st t))) t'))) (newCardLine u) = 0
                 \<and> filter isNotify (snd (snd (loop (fst (snd (loop st t))) t'))) = []
                 \<and> lastUID (fst (snd (loop (fst (snd (loop st t))) t'))) = u))"
proof (intro conjI impI)
  show "filter isNotify (snd (snd (loop st t))) = []" by (rule loop_no_notify)
next
  assume h: "fst (checkSerialCommand st (serial t)) = Returned \<and> \<not> apMode t \<and> linkUp t
        \<and> dedupGate (lastUID st) (fst (readRFID (picc t))) = (u, Some u)"
  then have c: "checkSerialCommand st (serial t) = (Returned, st, [])"
    by (simp add: checkSerial_Returned)
  note new = loop_up_new [OF c, of u] h
  from new show u: "lastUID (fst (snd (loop st t))) = u" by auto
  from new show "count_list (snd (snd (loop st t))) (newCardLine u) = 1"
    by (auto simp: readRFID_quiet newCardLine_distinct)
  let ?st' = "fst (snd (loop st t))"
  assume h': "fst (checkSerialCommand ?st' (serial t')) = Returned
               \<and> \<not> apMode t' \<and> linkUp t' \<and> fst (readRFID (picc t')) = u"
  then have c': "checkSerialCommand ?st' (serial t') = (Returned, ?st', [])"
    by (simp add: checkSerial_Returned)
  have "dedupGate (lastUID ?st') (fst (readRFID (picc t'))) = (u, None)"
    using u h' by (simp add: dedupGate_def)
  from loop_up_same [OF c' _ _ this] h'
  have same: "loop ?st' t' = (Returned, ?st', snd (readRFID (picc t')))" by simp
  show "count_list (snd (snd (loop ?st' t'))) (newCardLine u) = 0"
    by (simp add: same readRFID_quiet)
  show "filter isNotify (snd (snd (loop ?st' t'))) = []" by (rule loop_no_notify)
  show "lastUID (fst (snd (loop ?st' t'))) = u" by (simp add: same u)
qed

theorem new_tag_logged_not_notified_witness:
  "fst (checkSerialCommand (boot Map.empty) (serial tagTick)) = Returned
   \<and> \<not> apMode tagTick \<and> linkUp tagTick
   \<and> dedupGate (lastUID (boot Map.empty)) (fst (readRFID (picc tagTick))) = (''A4A3FF10'', Some ''A4A3FF10'')
   \<and> filter isNotify (snd (snd (loop (boot Map.empty) tagTick))) = []
   \<and> lastUID (fst (snd (loop (boot Map.empty) tagTick))) = ''A4A3FF10''
   \<and> count_list (snd (snd (loop (boot Map.empty) tagTick))) (newCardLine ''A4A3FF10'') = 1
   \<and> fst (checkSerialCommand (fst (snd (loop (boot Map.empty) tagTick))) (serial tagTick)) = Returned
   \<and> fst (readRFID (picc tagTick)) = ''A4A3FF10''
   \<and> count_list (snd (snd (loop (fst (snd (loop (boot Map.empty) tagTick))) tagTick)))
        (newCardLine ''A4A3FF10'') = 0"
proof -
  note r = tagTick_read
  have h: "fst (checkSerialCommand (boot Map.empty) (serial tagTick)) = Returned
      \<and> \<not> apMode tagTick \<and> linkUp tagTick
      \<and> dedupGate (lastUID (boot Map.empty)) (fst (readRFID (picc tagTick))) =
          (''A4A3FF10'', Some ''A4A3FF10'')"
    unfolding r by (simp add: tagTick_def checkSerialCommand_def boot_def dedupGate_def)
  have h': "fst (checkSerialCommand (fst (snd (loop (boot Map.empty) tagTick))) (serial tagTick)) = Returned
      \<and> \<not> apMode tagTick \<and> linkUp tagTick"
    by (simp add: tagTick_def checkSerialCommand_def)
  from new_tag_logged_not_notified [of "boot Map.empty" tagTick "''A4A3FF10''" tagTick] h h' r
  show ?thesis by simp
qed

text \<open>
  Claim C2 as stated fails: on a tick with the link up where the gate emits the new tag
  \<open>A4A3FF10\<close>, the number of notification calls is zero, not one.
\<close>

theorem new_tag_notification_counterexample:
  "snd (dedupGate (lastUID (boot Map.empty)) (fst (readRFID (picc tagTick)))) = Some ''A4A3FF10''
   \<and> fst (checkSerialCommand (boot Map.empty) (serial tagTick)) = Returned
   \<and> linkUp tagTick \<and> \<not> apMode tagTick
   \<and> length (filter isNotify (snd (snd (loop (boot Map.empty) tagTick)))) \<noteq> 1"
proof -
  note r = tagTick_read
  show ?thesis
    unfolding r by (simp add: loop_no_notify tagTick_def checkSerialCommand_def boot_def dedupGate_def)
qed

text \<open>
  The 32-bit difference of two readings of the clock is at most the time between them, so
  a difference of 60000 or more means a minute or more has passed.
\<close>

lemma millis_gap:
  assumes "T0 \<le> T1" and "(60000 :: 32 word) \<le> of_nat T1 - of_nat T0"
  shows "T0 + 60000 \<le> T1"
proof -
  have "(of_nat T1 - of_nat T0 :: 32 word) = of_nat (T1 - T0)"
    using assms(1) by simp
  then have "unat (60000 :: 32 word) \<le> unat (of_nat (T1 - T0) :: 32 word)"
    using assms(2) by (simp add: word_le_nat_alt)
  also have "\<dots> \<le> T1 - T0"
    by (simp add: unat_of_nat)
  finally show ?thesis using assms(1) by simp
qed

lemma run_head: "run st (t # ts) ! 0 = loop st t"
  by (cases "loop st t" rule: prod_cases3) (simp split: outcome.splits)

lemma run_tail:
  "Suc k < length (run st (t # ts)) \<Longrightarrow>
     run st (t # ts) ! Suc k = run (fst (snd (loop st t))) ts ! k
     \<and> k < length (run (fst (snd (loop st t))) ts)"
  by (cases "loop st t" rule: prod_cases3) (simp split: outcome.splits)

text \<open>
  After an attempt at time \<open>T0\<close>, every later attempt of the run comes a minute or more
  after \<open>T0\<close>.
\<close>

lemma run_gap:
  "sorted (map now ts) \<Longrightarrow> \<forall>t \<in> set ts. T0 \<le> now t \<Longrightarrow>
   lastReconnectTime st = of_nat T0 \<Longrightarrow> j < length (run st ts) \<Longrightarrow>
   reconnects (run st ts ! j) \<Longrightarrow> T0 + 60000 \<le> now (ts ! j)"
proof (induction ts arbitrary: st j T0)
  case Nil
  then show ?case by simp
next
  case (Cons t ts)
  show ?case
  proof (cases j)
    case 0
    with Cons.prems have "reconnects (loop st t)" by (simp add: run_head del: run.simps)
    from loop_reconnects [OF this] Cons.prems(3)
    have "(60000 :: 32 word) \<le> of_nat (now t) - of_nat T0" by simp
    moreover have "T0 \<le> now t" using Cons.prems(2) by simp
    ultimately show ?thesis using 0 millis_gap by simp
  next
    case (Suc k)
    let ?st' = "fst (snd (loop st t))"
    from Cons.prems(4) Suc have "Suc k < length (run st (t # ts))" by simp
    from run_tail [OF this] Cons.prems(5) Suc
    have k: "k < length (run ?st' ts)" and r: "reconnects (run ?st' ts ! k)" by simp_all
    have s: "sorted (map now ts)" using Cons.prems(1) by simp
    from loop_lastReconnectTime [of st t] show ?thesis
    proof
      assume "lastReconnectTime ?st' = lastReconnectTime st"
      then have "lastReconnectTime ?st' = of_nat T0" using Cons.prems(3) by simp
      moreover have "\<forall>t \<in> set ts. T0 \<le> now t" using Cons.prems(2) by simp
      ultimately have "T0 + 60000 \<le> now (ts ! k)" using Cons.IH [OF s _ _ k r] by blast
      then show ?thesis using Suc by simp
    next
      assume "reconnects (loop st t)"
      from loop_reconnects [OF this] Cons.prems(3)
      have l: "lastReconnectTime ?st' = of_nat (now t)"
        and g: "(60000 :: 32 word) \<le> of_nat (now t) - of_nat T0" by simp_all
      have "T0 \<le> now t" using Cons.prems(2) by simp
      then have "T0 + 60000 \<le> now t" using g by (rule millis_gap)
      moreover have "\<forall>t' \<in> set ts. now t \<le> now t'" using Cons.prems(1) by simp
      then have "now t + 60000 \<le> now (ts ! k)" using Cons.IH [OF s _ l k r] by blast
      ultimately show ?thesis using Suc by simp
    qed
  qed
qed

lemma run_reconnect_gap:
  "sorted (map now ts) \<Longrightarrow> i < j \<Longrightarrow> j < length (run st ts) \<Longrightarrow>
   reconnects (run st ts ! i) \<Longrightarrow> reconnects (run st ts ! j) \<Longrightarrow>
   now (ts ! i) + 60000 \<le> now (ts ! j)"
proof (induction ts arbitrary: st i j)
  case Nil
  then show ?case by simp
next
  case (Cons t ts)
  from Cons.prems(2) obtain k where j: "j = Suc k" by (cases j) simp_all
  let ?st' = "fst (snd (loop st t))"
  from Cons.prems(3) j have "Suc k < length (run st (t # ts))" by simp
  from run_tail [OF this] Cons.prems(5) j
  have k: "k < length (run ?st' ts)" and r: "reconnects (run ?st' ts ! k)" by simp_all
  have s: "sorted (map now ts)" using Cons.prems(1) by simp
  show ?case
  proof (cases i)
    case 0
    with Cons.prems(4) have "reconnects (loop st t)" by (simp add: run_head del: run.simps)
    from loop_reconnects [OF this] have l: "lastReconnectTime ?st' = of_nat (now t)" by simp
    have "\<forall>t' \<in> set ts. now t \<le> now t'" using Cons.prems(1) by simp
    from run_gap [OF s this l k r] show ?thesis using 0 j by simp
  next
    case (Suc i')
    with Cons.prems(2) j have lt: "i' < k" by simp
    from Suc Cons.prems(2,3) j have "Suc i' < length (run st (t # ts))" by simp
    from run_tail [OF this] Cons.prems(4) Suc
    have "reconnects (run ?st' ts ! i')" by simp
    from Cons.IH [OF s lt k this r] show ?thesis using Suc j by simp
  qed
qed

lemma loop_downTick:
  "loop st (downTick ms) =
     (if (60000 :: 32 word) \<le> of_nat ms - lastReconnectTime st
      then (Returned, st\<lparr>lastReconnectTime := of_nat ms\<rparr>,
            [WiFiDisconnect, WiFiBegin (savedSSID st) (savedPassword st)])
      else (Returned, st, []))"
  by (simp add: loop_def downTick_def checkSerialCommand_def Let_def)

text \<open>
  Claim C6. Over ticks in the order of time, two ticks that each issue a reconnect attempt
  are 60000 ms or more apart. On a tick with the link down outside access-point mode, the
  attempt (one disconnect, then one begin of the join) is made exactly when 60000 ms or
  more have passed on the 32-bit clock since the last one, whatever the number of attempts
  before; the tick then returns, and its result does not depend on the reader.
\<close>

theorem reconnect_interval_floor:
  "(sorted (map now ts) \<and> i < j \<and> j < length (run st ts)
      \<and> reconnects (run st ts ! i) \<and> reconnects (run st ts ! j) \<longrightarrow>
        now (ts ! i) + 60000 \<le> now (ts ! j))
   \<and> (fst (checkSerialCommand st (serial t)) = Returned \<and> \<not> apMode t \<and> \<not> linkUp t \<longrightarrow>
        loop st t =
          (if (60000 :: 32 word) \<le> of_nat (now t) - lastReconnectTime st
           then (Returned, st\<lparr>lastReconnectTime := of_nat (now t)\<rparr>,
                 [WiFiDisconnect, WiFiBegin (savedSSID st) (savedPassword st)])
           else (Returned, st, []))
        \<and> PiccIsNewCardPresent \<notin> set (snd (snd (loop st t)))
        \<and> loop st (t\<lparr>picc := p\<rparr>) = loop st t)"
proof (intro conjI impI)
  assume "sorted (map now ts) \<and> i < j \<and> j < length (run st ts)
      \<and> reconnects (run st ts ! i) \<and> reconnects (run st ts ! j)"
  then show "now (ts ! i) + 60000 \<le> now (ts ! j)"
    using run_reconnect_gap [of ts i j st] by blast
next
  assume h: "fst (checkSerialCommand st (serial t)) = Returned \<and> \<not> apMode t \<and> \<not> linkUp t"
  then have c: "checkSerialCommand st (serial t) = (Returned, st, [])"
    by (simp add: checkSerial_Returned)
  from loop_down [OF c] h
  show l: "loop st t =
          (if (60000 :: 32 word) \<le> of_nat (now t) - lastReconnectTime st
           then (Returned, st\<lparr>lastReconnectTime := of_nat (now t)\<rparr>,
                 [WiFiDisconnect, WiFiBegin (savedSSID st) (savedPassword st)])
           else (Returned, st, []))" by simp
  show "PiccIsNewCardPresent \<notin> set (snd (snd (loop st t)))"
    by (simp add: l)
  have "checkSerialCommand st (serial (t\<lparr>picc := p\<rparr>)) = (Returned, st, [])" using c by simp
  from loop_down [OF this] h show "loop st (t\<lparr>picc := p\<rparr>) = loop st t"
    by (simp add: l)
qed

theorem reconnect_interval_floor_witness:
  "sorted (map now [downTick 60000, downTick 90000, downTick 120000])
   \<and> (0 :: nat) < 2
   \<and> 2 < length (run (boot Map.empty) [downTick 60000, downTick 90000, downTick 120000])
   \<and> reconnects (run (boot Map.empty) [downTick 60000, downTick 90000, downTick 120000] ! 0)
   \<and> \<not> reconnects (run (boot Map.empty) [downTick 60000, downTick 90000, downTick 120000] ! 1)
   \<and> reconnects (run (boot Map.empty) [downTick 60000, downTick 90000, downTick 120000] ! 2)
   \<and> now ([downTick 60000, downTick 90000, downTick 120000] ! 0) + 60000
        \<le> now ([downTick 60000, downTick 90000, downTick 120000] ! 2)
   \<and> fst (checkSerialCommand (boot Map.empty) (serial (downTick 60000))) = Returned
   \<and> \<not> apMode (downTick 60000) \<and> \<not> linkUp (downTick 60000)
   \<and> reconnects (loop (boot Map.empty) (downTick 60000))
   \<and> loop (boot Map.empty) (downTick 60000\<lparr>picc := Some [1, 2, 3, 4]\<rparr>)
        = loop (boot Map.empty) (downTick 60000)"
proof -
  have h1: "sorted (map now [downTick 60000, downTick 90000, downTick 120000])"
    by (simp add: downTick_def)
  have h2: "2 < length (run (boot Map.empty) [downTick 60000, downTick 90000, downTick 120000])
   \<and> reconnects (run (boot Map.empty) [downTick 60000, downTick 90000, downTick 120000] ! 0)
   \<and> \<not> reconnects (run (boot Map.empty) [downTick 60000, downTick 90000, downTick 120000] ! 1)
   \<and> reconnects (run (boot Map.empty) [downTick 60000, downTick 90000, downTick 120000] ! 2)"
    by (simp add: loop_downTick boot_def reconnects_def)
  have h3: "fst (checkSerialCommand (boot Map.empty) (serial (downTick 60000))) = Returned
   \<and> \<not> apMode (downTick 60000) \<and> \<not> linkUp (downTick 60000)"
    by (simp add: downTick_def checkSerialCommand_def)
  have h4: "reconnects (loop (boot Map.empty) (downTick 60000))"
    by (simp add: loop_downTick boot_def reconnects_def)
  from reconnect_interval_floor [of "[downTick 60000, downTick 90000, downTick 120000]" 0 2
      "boot Map.empty" "downTick 60000" "Some [1, 2, 3, 4]"] h1 h2 h3 h4
  show ?thesis by simp
qed


section \<open>Properties: joining the network\<close>

text \<open>
  The calls that start the join, the time an effect waits, and the time a trace waits in
  all.
\<close>

definition joinStart :: "device \<Rightarrow> effect list" where
  "joinStart st = [WiFiModeSTA, WiFiBegin (savedSSID st) (savedPassword st)]"

fun delayOf :: "effect \<Rightarrow> nat" where
  "delayOf (Delay ms) = ms"
| "delayOf _ = 0"

definition waited :: "effect list \<Rightarrow> nat" where
  "waited e = sum_list (map delayOf e)"

text \<open>A device whose store holds a pair of credentials, after they are loaded.\<close>

definition provisioned :: device where
  "provisioned = loadCredentials (boot [''ssid'' \<mapsto> ''home'', ''password'' \<mapsto> ''secret''])"

lemma connectWait_spec:
  "attempts \<le> 10 \<Longrightarrow>
   \<exists>n. attempts \<le> n \<and> n \<le> 10 \<and>
       connectWait status attempts e = (n, e @ replicate (n - attempts) (Delay 1000))
       \<and> (\<forall>k. attempts \<le> k \<and> k < n \<longrightarrow> \<not> status k)
       \<and> (n < 10 \<longrightarrow> status n)"
proof (induction status attempts e rule: connectWait.induct)
  case (1 status attempts e)
  show ?case
  proof (cases "\<not> status attempts \<and> attempts < 10")
    case True
    then have "attempts + 1 \<le> 10" by simp
    from "1.IH" [OF True this] obtain n where n: "attempts + 1 \<le> n" "n \<le> 10"
      "connectWait status (attempts + 1) (e @ [Delay 1000]) =
         (n, (e @ [Delay 1000]) @ replicate (n - (attempts + 1)) (Delay 1000))"
      "\<forall>k. attempts + 1 \<le> k \<and> k < n \<longrightarrow> \<not> status k" "n < 10 \<longrightarrow> status n"
      by blast
    have r: "[Delay 1000] @ replicate (n - (attempts + 1)) (Delay 1000) =
        replicate (n - attempts) (Delay 1000)"
      using n(1) by (cases "n - attempts") simp_all
    have "connectWait status attempts e = (n, e @ replicate (n - attempts) (Delay 1000))"
      using True n(3) r connectWait.simps [of status attempts e] by simp
    moreover have "\<forall>k. attempts \<le> k \<and> k < n \<longrightarrow> \<not> status k"
      using True n(4) by (metis Suc_eq_plus1 le_antisym not_less_eq_eq)
    ultimately show ?thesis using n(1,2,5) by (intro exI [of _ n]) simp
  next
    case False
    then have "connectWait status attempts e = (attempts, e)"
      using connectWait.simps [of status attempts e] by auto
    moreover have "attempts < 10 \<longrightarrow> status attempts" using False by blast
    ultimately show ?thesis using "1.prems" by (intro exI [of _ attempts]) auto
  qed
qed

lemma connectWait_never:
  assumes "attempts \<le> 10" and "\<forall>k < 10. \<not> status k"
  shows "connectWait status attempts e = (10, e @ replicate (10 - attempts) (Delay 1000))"
proof -
  from connectWait_spec [OF assms(1), of status e] obtain n where n: "attempts \<le> n" "n \<le> 10"
    "connectWait status attempts e = (n, e @ replicate (n - attempts) (Delay 1000))"
    "n < 10 \<longrightarrow> status n" by blast
  from n(2,4) assms(2) have "n = 10" by (cases "n < 10") auto
  with n(3) show ?thesis by simp
qed

lemma connectToWiFi_cases:
  "\<exists>n. n \<le> 10 \<and>
     (connectToWiFi st status =
        (Returned, st, joinStart st @ replicate n (Delay 1000) @ [LedWifiHigh])
      \<or> connectToWiFi st status =
           (Restarted, st\<lparr>prefs := clear (prefs st)\<rparr>,
            joinStart st @ replicate n (Delay 1000) @ [PrefsClear, Delay 500, Restart]))"
proof -
  from connectWait_spec [of 0 status "joinStart st"] obtain n where n: "n \<le> 10"
    "connectWait status 0 (joinStart st) = (n, joinStart st @ replicate n (Delay 1000))"
    by auto
  show ?thesis
    using n by (intro exI [of _ n]) (simp add: connectToWiFi_def joinStart_def)
qed

lemma connectToWiFi_never:
  assumes "\<forall>k < 10. \<not> status k" and "\<not> status 11"
  shows "connectToWiFi st status =
       (Restarted, st\<lparr>prefs := clear (prefs st)\<rparr>,
        joinStart st @ replicate 10 (Delay 1000) @ [PrefsClear, Delay 500, Restart])"
proof -
  have "connectWait status 0 (joinStart st) = (10, joinStart st @ replicate 10 (Delay 1000))"
    using connectWait_never [of 0 status "joinStart st"] assms(1) by simp
  then show ?thesis
    using assms(2) by (simp add: connectToWiFi_def joinStart_def)
qed

lemma waited_simps:
  "waited (a @ b) = waited a + waited b"
  "waited (replicate n (Delay ms)) = n * ms"
  "waited (joinStart st) = 0"
  by (simp_all add: waited_def joinStart_def sum_list_replicate)

text \<open>
  Claim C3. Whatever the radio answers, \<^verbatim>\<open>connectToWiFi\<close> ends after at most 10
  waits of 1000 ms: either with success or with the credentials cleared and a restart, the
  waits adding up to 10500 ms at most. When the radio never reports the link, it makes
  exactly 10 waits, clears and restarts.
\<close>

theorem connecting_bounded:
  "(\<exists>n. n \<le> 10 \<and>
     (connectToWiFi st status =
        (Returned, st, joinStart st @ replicate n (Delay 1000) @ [LedWifiHigh])
      \<or> connectToWiFi st status =
           (Restarted, st\<lparr>prefs := clear (prefs st)\<rparr>,
            joinStart st @ replicate n (Delay 1000) @ [PrefsClear, Delay 500, Restart])))
   \<and> waited (snd (snd (connectToWiFi st status))) \<le> 10 * 1000 + 500
   \<and> connectToWiFi st (\<lambda>k. False) =
       (Restarted, st\<lparr>prefs := clear (prefs st)\<rparr>,
        joinStart st @ replicate 10 (Delay 1000) @ [PrefsClear, Delay 500, Restart])"
proof (intro conjI)
  show "\<exists>n. n \<le> 10 \<and>
     (connectToWiFi st status =
        (Returned, st, joinStart st @ replicate n (Delay 1000) @ [LedWifiHigh])
      \<or> connectToWiFi st status =
           (Restarted, st\<lparr>prefs := clear (prefs st)\<rparr>,
            joinStart st @ replicate n (Delay 1000) @ [PrefsClear, Delay 500, Restart]))"
    by (rule connectToWiFi_cases)
  from connectToWiFi_cases [of st status] obtain n where n: "n \<le> 10"
    "connectToWiFi st status =
        (Returned, st, joinStart st @ replicate n (Delay 1000) @ [LedWifiHigh])
      \<or> connectToWiFi st status =
           (Restarted, st\<lparr>prefs := clear (prefs st)\<rparr>,
            joinStart st @ replicate n (Delay 1000) @ [PrefsClear, Delay 500, Restart])"
    by blast
  from n(2) have "waited (snd (snd (connectToWiFi st status))) \<le> n * 1000 + 500"
    by (auto simp: waited_simps) (simp_all add: waited_def)
  with n(1) show "waited (snd (snd (connectToWiFi st status))) \<le> 10 * 1000 + 500" by simp
  show "connectToWiFi st (\<lambda>k. False) =
       (Restarted, st\<lparr>prefs := clear (prefs st)\<rparr>,
        joinStart st @ replicate 10 (Delay 1000) @ [PrefsClear, Delay 500, Restart])"
    by (rule connectToWiFi_never) simp_all
qed

theorem connecting_bounded_witness:
  "connectToWiFi provisioned (\<lambda>k. False) =
       (Restarted, provisioned\<lparr>prefs := clear (prefs provisioned)\<rparr>,
        joinStart provisioned @ replicate 10 (Delay 1000) @ [PrefsClear, Delay 500, Restart])
   \<and> waited (snd (snd (connectToWiFi provisioned (\<lambda>k. False)))) = 10500
   \<and> waited (snd (snd (connectToWiFi provisioned (\<lambda>k. 2 \<le> k)))) \<le> 10500"
proof -
  note a = connecting_bounded [of provisioned "\<lambda>k. 2 \<le> k"]
  note b = connecting_bounded [of provisioned "\<lambda>k. False"]
  have "waited (joinStart provisioned @ replicate 10 (Delay 1000) @ [PrefsClear, Delay 500, Restart])
      = 10500"
    by (simp add: waited_simps) (simp add: waited_def)
  with a b show ?thesis by simp
qed

text \<open>
  Claim C4. When all 10 attempts pass without the link and it is still down at the final
  check, the store is cleared, then the device waits 500 ms and restarts. Whenever the
  function restarts, the store is empty at that point (so the next load yields the empty
  pair), and the join was begun once only: the trace holds nothing but waits between the
  start of the join and the clearing.
\<close>

theorem join_failure_clears_then_restarts:
  "((\<forall>k < 10. \<not> status k) \<and> \<not> status 11 \<longrightarrow>
      connectToWiFi st status =
        (Restarted, st\<lparr>prefs := clear (prefs st)\<rparr>,
         joinStart st @ replicate 10 (Delay 1000) @ [PrefsClear, Delay 500, Restart]))
   \<and> (fst (connectToWiFi st status) = Restarted \<longrightarrow>
        prefs (fst (snd (connectToWiFi st status))) = Map.empty
        \<and> savedSSID (loadCredentials (fst (snd (connectToWiFi st status)))) = []
        \<and> savedPassword (loadCredentials (fst (snd (connectToWiFi st status)))) = []
        \<and> (\<exists>n. n \<le> 10 \<and> snd (snd (connectToWiFi st status)) =
              joinStart st @ replicate n (Delay 1000) @ [PrefsClear, Delay 500, Restart]))"
proof (intro conjI impI)
  assume "(\<forall>k < 10. \<not> status k) \<and> \<not> status 11"
  then show "connectToWiFi st status =
        (Restarted, st\<lparr>prefs := clear (prefs st)\<rparr>,
         joinStart st @ replicate 10 (Delay 1000) @ [PrefsClear, Delay 500, Restart])"
    using connectToWiFi_never [of status st] by blast
next
  assume r: "fst (connectToWiFi st status) = Restarted"
  from connectToWiFi_cases [of st status] r obtain n where n: "n \<le> 10"
    "connectToWiFi st status =
           (Restarted, st\<lparr>prefs := clear (prefs st)\<rparr>,
            joinStart st @ replicate n (Delay 1000) @ [PrefsClear, Delay 500, Restart])"
    by auto
  show "prefs (fst (snd (connectToWiFi st status))) = Map.empty"
    by (simp add: n(2) clear_def)
  show "savedSSID (loadCredentials (fst (snd (connectToWiFi st status)))) = []"
    by (simp add: n(2) clear_def loadCredentials_def getString_def)
  show "savedPassword (loadCredentials (fst (snd (connectToWiFi st status)))) = []"
    by (simp add: n(2) clear_def loadCredentials_def getString_def)
  show "\<exists>n. n \<le> 10 \<and> snd (snd (connectToWiFi st status)) =
              joinStart st @ replicate n (Delay 1000) @ [PrefsClear, Delay 500, Restart]"
    using n by auto
qed

theorem join_failure_clears_then_restarts_witness:
  "savedSSID provisioned = ''home''
   \<and> connectToWiFi provisioned (\<lambda>k. False) =
        (Restarted, provisioned\<lparr>prefs := clear (prefs provisioned)\<rparr>,
         joinStart provisioned @ replicate 10 (Delay 1000) @ [PrefsClear, Delay 500, Restart])
   \<and> fst (connectToWiFi provisioned (\<lambda>k. False)) = Restarted
   \<and> savedSSID (loadCredentials (fst (snd (connectToWiFi provisioned (\<lambda>k. False))))) = []"
proof -
  have "savedSSID provisioned = ''home''"
    by (simp add: provisioned_def loadCredentials_def getString_def boot_def)
  moreover note join_failure_clears_then_restarts [of "\<lambda>k. False" provisioned]
  ultimately show ?thesis by (simp add: loadCredentials_def getString_def clear_def)
qed

section \<open>Properties: the provisioning form\<close>

text \<open>A submission with both fields, and one without the password.\<close>

definition ssidField :: param where
  "ssidField = \<lparr>pname = ''ssid'', pvalue = ''home'', isPost = True, isFile = False\<rparr>"

definition passwordField :: param where
  "passwordField = \<lparr>pname = ''password'', pvalue = ''secret'', isPost = True, isFile = False\<rparr>"

definition fullForm :: "param list" where
  "fullForm = [ssidField, passwordField]"

definition shortForm :: "param list" where
  "shortForm = [ssidField]"

text \<open>
  Claim C5. When the \<open>ssid\<close> or the \<open>password\<close> field is absent from the form,
  \<^verbatim>\<open>handleSave\<close> answers 400 with the error page and changes nothing: no restart. When
  both are present it stores the pair, answers 200, waits 500 ms (less than a second) and
  restarts; the pair is what a load then yields.
\<close>

theorem handleSave_validates_then_restarts:
  "(\<not> hasParam request ''ssid'' True \<or> \<not> hasParam request ''password'' True \<longrightarrow>
      handleSave st request = (Returned, st, [Send 400 ''<h3>Invalid Data!</h3>'']))
   \<and> (getParam request ''ssid'' True = Some s \<and> getParam request ''password'' True = Some p \<longrightarrow>
      handleSave st request =
        (Restarted,
         st\<lparr>prefs := (prefs st)(''ssid'' \<mapsto> pvalue s, ''password'' \<mapsto> pvalue p),
            savedSSID := pvalue s, savedPassword := pvalue p\<rparr>,
         [PrefsPut ''ssid'' (pvalue s), PrefsPut ''password'' (pvalue p),
          Send 200 ''<h3>Credentials Saved. Restarting...</h3>'', Delay 500, Restart])
      \<and> savedSSID (loadCredentials (fst (snd (handleSave st request)))) = pvalue s
      \<and> savedPassword (loadCredentials (fst (snd (handleSave st request)))) = pvalue p
      \<and> waited (snd (snd (handleSave st request))) = 500)"
  by (auto simp: handleSave_def hasParam_def saveCredentials_def putString_def
      loadCredentials_def getString_def Let_def waited_def)

theorem handleSave_validates_then_restarts_witness:
  "\<not> hasParam shortForm ''password'' True
   \<and> handleSave (boot Map.empty) shortForm =
        (Returned, boot Map.empty, [Send 400 ''<h3>Invalid Data!</h3>''])
   \<and> getParam fullForm ''ssid'' True = Some ssidField
   \<and> getParam fullForm ''password'' True = Some passwordField
   \<and> fst (handleSave (boot Map.empty) fullForm) = Restarted
   \<and> savedSSID (loadCredentials (fst (snd (handleSave (boot Map.empty) fullForm)))) = ''home''
   \<and> savedPassword (loadCredentials (fst (snd (handleSave (boot Map.empty) fullForm)))) = ''secret''"
proof -
  have a: "\<not> hasParam shortForm ''password'' True"
    by (simp add: shortForm_def hasParam_def ssidField_def)
  have b: "getParam fullForm ''ssid'' True = Some ssidField"
      "getParam fullForm ''password'' True = Some passwordField"
    by (simp_all add: fullForm_def ssidField_def passwordField_def)
  have c: "pvalue ssidField = ''home''" "pvalue passwordField = ''secret''"
    by (simp_all add: ssidField_def passwordField_def)
  from handleSave_validates_then_restarts
      [where request = shortForm and st = "boot Map.empty" and s = ssidField and p = passwordField]
    a
  have "handleSave (boot Map.empty) shortForm =
        (Returned, boot Map.empty, [Send 400 ''<h3>Invalid Data!</h3>''])" by blast
  moreover from handleSave_validates_then_restarts
      [where request = fullForm and st = "boot Map.empty" and s = ssidField and p = passwordField]
    b
  have "fst (handleSave (boot Map.empty) fullForm) = Restarted
     \<and> savedSSID (loadCredentials (fst (snd (handleSave (boot Map.empty) fullForm)))) = pvalue ssidField
     \<and> savedPassword (loadCredentials (fst (snd (handleSave (boot Map.empty) fullForm)))) = pvalue passwordField"
    by (simp add: loadCredentials_def getString_def)
  ultimately show ?thesis using a b c by simp
qed


section \<open>Properties: the network list\<close>

lemma scanCopy_spec:
  "0 \<le> i \<Longrightarrow> networkCount st \<le> int (length (networkList st)) \<Longrightarrow>
   \<exists>l. scanCopy ssid i st = Some (st\<lparr>networkList := l\<rparr>)
       \<and> length l = length (networkList st)
       \<and> (\<forall>k < length l. l ! k =
             (if nat i \<le> k \<and> int k < networkCount st then ssid k else networkList st ! k))"
proof (induction ssid i st rule: scanCopy.induct)
  case (1 ssid i st)
  show ?case
  proof (cases "i < networkCount st")
    case True
    with "1.prems" have inb: "0 \<le> i \<and> i < int (length (networkList st))" by simp
    let ?st' = "st\<lparr>networkList := (networkList st)[nat i := ssid (nat i)]\<rparr>"
    have "0 \<le> i + 1" "networkCount ?st' \<le> int (length (networkList ?st'))"
      using "1.prems" by simp_all
    from "1.IH" [OF True inb this] obtain l where l:
      "scanCopy ssid (i + 1) ?st' = Some (?st'\<lparr>networkList := l\<rparr>)"
      "length l = length (networkList ?st')"
      "\<forall>k < length l. l ! k =
         (if nat (i + 1) \<le> k \<and> int k < networkCount ?st' then ssid k else networkList ?st' ! k)"
      by blast
    have "scanCopy ssid i st = Some (st\<lparr>networkList := l\<rparr>)"
      using True inb l(1) scanCopy.simps [of ssid i st] by simp
    moreover have "length l = length (networkList st)" using l(2) by simp
    moreover have "\<forall>k < length l. l ! k =
             (if nat i \<le> k \<and> int k < networkCount st then ssid k else networkList st ! k)"
    proof (intro allI impI)
      fix k assume k: "k < length l"
      show "l ! k = (if nat i \<le> k \<and> int k < networkCount st then ssid k else networkList st ! k)"
      proof (cases "k = nat i")
        case True
        then show ?thesis using l(3) k inb \<open>i < networkCount st\<close> l(2) by simp
      next
        case False
        then have "(nat (i + 1) \<le> k) = (nat i \<le> k)" using inb by auto
        then show ?thesis using l(3) k False l(2) by simp
      qed
    qed
    ultimately show ?thesis by blast
  next
    case False
    then have "scanCopy ssid i st = Some st" using scanCopy.simps [of ssid i st] by simp
    then show ?thesis using False "1.prems" by (intro exI [of _ "networkList st"]) auto
  qed
qed

text \<open>A list that agrees with the scan below \<open>m\<close> and with the old list from \<open>m\<close> on.\<close>

lemma capture_take_drop:
  assumes "length l = length old" "m \<le> length old"
    and "\<forall>k < length l. l ! k = (if k < m then ssid k else old ! k)"
  shows "take m l = map ssid [0 ..< m] \<and> drop m l = drop m old"
proof
  show "take m l = map ssid [0 ..< m]"
    using assms by (intro nth_equalityI) simp_all
  show "drop m l = drop m old"
    using assms by (intro nth_equalityI) simp_all
qed

text \<open>
  Claim C9. On an array of \<^verbatim>\<open>MAX_NETWORKS\<close> entries the capture never writes outside
  the array, whatever the scan returns, failure included. Afterwards the count is at most
  20, the first \<open>min n 20\<close> entries are the scan's names in the scan's order, the names
  beyond are dropped, and the rest of the array is as before.
\<close>

theorem scan_capture_bounded:
  "length (networkList st) = nat MAX_NETWORKS \<longrightarrow>
     (\<exists>l. scanWiFiNetworks st n ssid =
            Some (st\<lparr>networkCount := min n MAX_NETWORKS, networkList := l\<rparr>)
        \<and> length l = nat MAX_NETWORKS
        \<and> nat (min n MAX_NETWORKS) \<le> 20
        \<and> take (nat (min n MAX_NETWORKS)) l = map ssid [0 ..< nat (min n MAX_NETWORKS)]
        \<and> drop (nat (min n MAX_NETWORKS)) l = drop (nat (min n MAX_NETWORKS)) (networkList st))"
proof
  assume len: "length (networkList st) = nat MAX_NETWORKS"
  let ?c = "min n MAX_NETWORKS"
  let ?st2 = "st\<lparr>networkCount := ?c\<rparr>"
  have c20: "nat ?c \<le> 20" by (simp add: MAX_NETWORKS_def)
  show "\<exists>l. scanWiFiNetworks st n ssid = Some (st\<lparr>networkCount := ?c, networkList := l\<rparr>)
        \<and> length l = nat MAX_NETWORKS \<and> nat ?c \<le> 20
        \<and> take (nat ?c) l = map ssid [0 ..< nat ?c]
        \<and> drop (nat ?c) l = drop (nat ?c) (networkList st)"
  proof (cases "n = - 1")
    case True
    then have "scanWiFiNetworks st n ssid = Some (st\<lparr>networkCount := ?c, networkList := networkList st\<rparr>)"
      by (simp add: scanWiFiNetworks_def MAX_NETWORKS_def)
    then show ?thesis using True len by (intro exI [of _ "networkList st"]) simp
  next
    case False
    have "0 \<le> (0 :: int)" "networkCount ?st2 \<le> int (length (networkList ?st2))"
      using len by (simp_all add: MAX_NETWORKS_def)
    from scanCopy_spec [OF this, of ssid] obtain l where l:
      "scanCopy ssid 0 ?st2 = Some (?st2\<lparr>networkList := l\<rparr>)"
      "length l = length (networkList st)"
      "\<forall>k < length l. l ! k = (if int k < ?c then ssid k else networkList st ! k)"
      by auto
    have "scanWiFiNetworks st n ssid = scanCopy ssid 0 ?st2"
      using False by (simp add: scanWiFiNetworks_def Let_def min_def)
    then have r: "scanWiFiNetworks st n ssid = Some (st\<lparr>networkCount := ?c, networkList := l\<rparr>)"
      using l(1) by simp
    have "\<forall>k < length l. l ! k = (if k < nat ?c then ssid k else networkList st ! k)"
      using l(3) by (simp add: zless_nat_eq_int_zless)
    from capture_take_drop [OF l(2) _ this] c20 len
    have "take (nat ?c) l = map ssid [0 ..< nat ?c] \<and> drop (nat ?c) l = drop (nat ?c) (networkList st)"
      by (simp add: MAX_NETWORKS_def)
    with r l(2) len c20 show ?thesis by (intro exI [of _ l]) simp
  qed
qed

theorem scan_capture_bounded_witness:
  "length (networkList (boot Map.empty)) = nat MAX_NETWORKS
   \<and> (\<exists>l. scanWiFiNetworks (boot Map.empty) 25 (\<lambda>i. ''ap'') =
            Some (boot Map.empty\<lparr>networkCount := 20, networkList := l\<rparr>)
        \<and> length l = 20
        \<and> take 20 l = map (\<lambda>i. ''ap'') [0 ..< 20])
   \<and> (\<exists>l. scanWiFiNetworks (boot Map.empty) (- 1) (\<lambda>i. ''ap'') =
            Some (boot Map.empty\<lparr>networkCount := - 1, networkList := l\<rparr>)
        \<and> l = networkList (boot Map.empty))"
proof -
  have h: "length (networkList (boot Map.empty)) = nat MAX_NETWORKS"
    by (simp add: boot_def)
  from scan_capture_bounded [of "boot Map.empty" 25 "\<lambda>i. ''ap''"] h
    scan_capture_bounded [of "boot Map.empty" "- 1" "\<lambda>i. ''ap''"]
  show ?thesis by (auto simp: MAX_NETWORKS_def)
qed

section \<open>Properties: the landing page\<close>

text \<open>
  The landing page before and after its placeholder, the option element the loop builds
  for one name, and a device that has captured the given names.
\<close>

definition pageHead :: string where
  "pageHead = take 475 index_html"

definition pageTail :: string where
  "pageTail = drop 484 index_html"

definition optionTag :: "string \<Rightarrow> string" where
  "optionTag s = ''<option value='' @ [CHR 0x27] @ s @ [CHR 0x27] @ ''>'' @ s @ ''</option>''"

definition captured :: "string list \<Rightarrow> device" where
  "captured names =
     (boot Map.empty)\<lparr>networkList := names @ replicate (nat MAX_NETWORKS - length names) [],
                      networkCount := int (length names)\<rparr>"

lemma index_html_split: "index_html = pageHead @ ''%OPTIONS%'' @ pageTail"
  unfolding index_html_def pageHead_def pageTail_def by code_simp

lemma pageHead_no_percent: "CHR ''%'' \<notin> set pageHead"
  unfolding index_html_def pageHead_def by code_simp

lemma pageTail_no_percent: "CHR ''%'' \<notin> set pageTail"
  unfolding index_html_def pageTail_def by code_simp

lemma replace_skip:
  "pat \<noteq> [] \<Longrightarrow> hd pat \<notin> set pre \<Longrightarrow> replace (pre @ s) pat rep = pre @ replace s pat rep"
proof (induction pre)
  case Nil
  then show ?case by simp
next
  case (Cons c cs)
  from Cons.prems obtain p ps where p: "pat = p # ps" "p \<noteq> c" by (cases pat) auto
  then have "take (length pat) (c # cs @ s) \<noteq> pat" by auto
  then show ?case using Cons by simp
qed

lemma replace_hit:
  "pat \<noteq> [] \<Longrightarrow> replace (pat @ s) pat rep = rep @ replace s pat rep"
  by (cases pat) simp_all

lemma replace_once:
  assumes "pat \<noteq> []" "hd pat \<notin> set pre" "hd pat \<notin> set post"
  shows "replace (pre @ pat @ post) pat rep = pre @ rep @ post"
proof -
  have "replace post pat rep = post"
    using replace_skip [OF assms(1,3), of "[]" rep] by simp
  then have "replace (pat @ post) pat rep = rep @ post"
    using replace_hit [OF assms(1), of post rep] by simp
  then show ?thesis
    using replace_skip [OF assms(1,2), of "pat @ post" rep] by simp
qed

lemma replace_index_html:
  "replace index_html ''%OPTIONS%'' options = pageHead @ options @ pageTail"
proof -
  have ne: "''%OPTIONS%'' \<noteq> []" by simp
  have h1: "hd ''%OPTIONS%'' \<notin> set pageHead" using pageHead_no_percent by simp
  have h2: "hd ''%OPTIONS%'' \<notin> set pageTail" using pageTail_no_percent by simp
  have "replace (pageHead @ ''%OPTIONS%'' @ pageTail) ''%OPTIONS%'' options =
      pageHead @ options @ pageTail"
    by (rule replace_once [OF ne h1 h2])
  then show ?thesis by (simp only: index_html_split [symmetric])
qed

lemma optionsLoop_spec:
  "0 \<le> i \<Longrightarrow> networkCount st \<le> int (length (networkList st)) \<Longrightarrow>
     optionsLoop st i acc =
       Some (acc @ concat (map optionTag (drop (nat i) (take (nat (networkCount st)) (networkList st)))))"
proof (induction st i acc rule: optionsLoop.induct)
  case (1 st i options)
  let ?l = "take (nat (networkCount st)) (networkList st)"
  show ?case
  proof (cases "i < networkCount st")
    case True
    with "1.prems" have inb: "0 \<le> i \<and> i < int (length (networkList st))" by simp
    have len: "nat i < length ?l" using True inb by auto
    have "drop (nat i) ?l = (networkList st ! nat i) # drop (nat (i + 1)) ?l"
      using Cons_nth_drop_Suc [OF len] inb True by (simp add: Suc_nat_eq_nat_zadd1 add.commute)
    then show ?thesis
      using "1.IH" [OF True inb] "1.prems" True inb optionsLoop.simps [of st i options]
      by (simp add: optionTag_def)
  next
    case False
    then have "drop (nat i) ?l = []" by simp
    then show ?thesis using False optionsLoop.simps [of st i options] by simp
  qed
qed

lemma buildLandingPage_render:
  assumes "networkCount st \<le> int (length (networkList st))"
  shows "buildLandingPage st =
       Some (pageHead @ concat (map optionTag (take (nat (networkCount st)) (networkList st))) @ pageTail)"
  using optionsLoop_spec [OF _ assms, of 0 "[]"]
  by (simp add: buildLandingPage_def replace_index_html)

lemma buildLandingPage_captured:
  "length names \<le> 20 \<Longrightarrow>
     buildLandingPage (captured names) = Some (pageHead @ concat (map optionTag names) @ pageTail)"
  using buildLandingPage_render [of "captured names"]
  by (simp add: captured_def)

text \<open>
  Claim C8, as the code has it. For every captured list within the array, the page is the
  template with the placeholder replaced by one option element per captured name, in the
  list's order, and each name stands in its element twice exactly as it was captured, as
  the value and as the label: nothing is escaped.
\<close>

theorem landing_page_inserts_names_verbatim:
  "networkCount st \<le> int (length (networkList st)) \<longrightarrow>
     buildLandingPage st =
       Some (pageHead @ concat (map optionTag (take (nat (networkCount st)) (networkList st)))
             @ pageTail)"
  using buildLandingPage_render [of st] by blast

theorem landing_page_inserts_names_verbatim_witness:
  "networkCount (captured [''cafe'', ''<b>'']) \<le> int (length (networkList (captured [''cafe'', ''<b>''])))
   \<and> buildLandingPage (captured [''cafe'', ''<b>'']) =
        Some (pageHead @ optionTag ''cafe'' @ optionTag ''<b>'' @ pageTail)"
proof -
  have h: "networkCount (captured [''cafe'', ''<b>''])
      \<le> int (length (networkList (captured [''cafe'', ''<b>''])))"
    by (simp add: captured_def)
  from landing_page_inserts_names_verbatim [of "captured [''cafe'', ''<b>'']"] h
  show ?thesis by (simp add: captured_def)
qed

text \<open>
  Claim C8 as stated fails: the name \<open><b>\<close> reaches the page unescaped, and the page
  for it has two more tag openers than the page for the plain name \<open>abc\<close>, so a name
  does alter the structure of the page.
\<close>

theorem landing_page_escaping_counterexample:
  "buildLandingPage (captured [''<b>'']) =
     Some (pageHead @ ''<option value='' @ [CHR 0x27] @ ''<b>'' @ [CHR 0x27] @ ''><b></option>''
           @ pageTail)
   \<and> buildLandingPage (captured [''abc'']) =
     Some (pageHead @ ''<option value='' @ [CHR 0x27] @ ''abc'' @ [CHR 0x27] @ ''>abc</option>''
           @ pageTail)
   \<and> count_list (the (buildLandingPage (captured [''<b>'']))) (CHR ''<'') =
       count_list (the (buildLandingPage (captured [''abc'']))) (CHR ''<'') + 2"
  by (simp add: buildLandingPage_captured optionTag_def)


end
